theory Spec2Isabelle
  imports Main "HOL-Library.List_Lexorder" "HOL-Library.Product_Lexorder"
    "HOL-Library.Monad_Syntax" "HOL-Library.Multiset"
begin

section \<open>Strings\<close>

text \<open>
  \<^verbatim>\<open>scrape_tags.py\<close> works on Python \<^verbatim>\<open>str\<close> values: sequences of Unicode code
  points. A string is modelled as the list of its code points (\<^verbatim>\<open>ord\<close> of each
  character), so that the two non-ASCII characters of the annotation grammar, the em
  dash U+2014 and the sine wave U+223F, are single characters as they are in Python.
  Python compares strings code point by code point, which is the lexicographic order
  of \<open>nat list\<close>; tuples compare lexicographically as well.
\<close>

type_synonym ustring = "nat list"

definition ustr :: "string \<Rightarrow> ustring" where
  "ustr s = map of_char s"

definition bslash :: nat where
  "bslash = 92"

definition em_dash :: nat where
  "em_dash = 8212"

definition sine_wave :: nat where
  "sine_wave = 8767"

text \<open>
  \<^verbatim>\<open>str.isspace\<close>, which is also the class \<^verbatim>\<open>\s\<close> of \<^verbatim>\<open>re\<close> on a \<^verbatim>\<open>str\<close> pattern and what
  \<^verbatim>\<open>str.strip()\<close> removes.
\<close>

definition uni_space :: "nat \<Rightarrow> bool" where
  "uni_space c \<longleftrightarrow>
     (9 \<le> c \<and> c \<le> 13) \<or> (28 \<le> c \<and> c \<le> 32) \<or> c = 133 \<or> c = 160 \<or> c = 5760 \<or>
     (8192 \<le> c \<and> c \<le> 8202) \<or> c = 8232 \<or> c = 8233 \<or> c = 8239 \<or> c = 8287 \<or>
     c = 12288"

text \<open>The line boundaries of \<^verbatim>\<open>str.splitlines()\<close>.\<close>

definition uni_linebreak :: "nat \<Rightarrow> bool" where
  "uni_linebreak c \<longleftrightarrow>
     (10 \<le> c \<and> c \<le> 13) \<or> (28 \<le> c \<and> c \<le> 30) \<or> c = 133 \<or> c = 8232 \<or> c = 8233"

text \<open>
  The class \<^verbatim>\<open>\d\<close> of a \<^verbatim>\<open>str\<close> pattern is the Unicode category Nd. In the Basic Latin
  block that is \<^verbatim>\<open>0\<close> to \<^verbatim>\<open>9\<close>; which code points beyond it are decimal digits is a
  table of the Python runtime's Unicode database, not of this repository, and is the
  parameter \<open>nd\<close> of everything that matches a date or a version.
\<close>

definition uni_decimal :: "(nat \<Rightarrow> bool) \<Rightarrow> nat \<Rightarrow> bool" where
  "uni_decimal nd c \<longleftrightarrow> (if c < 128 then 48 \<le> c \<and> c \<le> 57 else nd c)"

text \<open>A runtime table with no decimal digit beyond Basic Latin, for concrete runs.\<close>

definition nd_latin :: "nat \<Rightarrow> bool" where
  "nd_latin c \<longleftrightarrow> False"

definition ascii_upper :: "nat \<Rightarrow> bool" where
  "ascii_upper c \<longleftrightarrow> 65 \<le> c \<and> c \<le> 90"

definition ascii_lower :: "nat \<Rightarrow> bool" where
  "ascii_lower c \<longleftrightarrow> 97 \<le> c \<and> c \<le> 122"

definition ascii_digit :: "nat \<Rightarrow> bool" where
  "ascii_digit c \<longleftrightarrow> 48 \<le> c \<and> c \<le> 57"

text \<open>
  \<^verbatim>\<open>str.upper()\<close>. The program applies it to text matched by \<^verbatim>\<open>[A-Za-z]+\<close>,
  \<^verbatim>\<open>[A-Za-z0-9_~\<dots>\-]+\<close> and \<^verbatim>\<open>[A-Z][A-Z0-9_]+\<close> only; on these characters (U+223F has
  no case mapping) it maps \<^verbatim>\<open>a\<close>..\<^verbatim>\<open>z\<close> to \<^verbatim>\<open>A\<close>..\<^verbatim>\<open>Z\<close> and leaves the rest.
\<close>

definition upper_char :: "nat \<Rightarrow> nat" where
  "upper_char c = (if ascii_lower c then c - 32 else c)"

definition upper :: "ustring \<Rightarrow> ustring" where
  "upper s = map upper_char s"

definition strip :: "ustring \<Rightarrow> ustring" where
  "strip s = rev (dropWhile uni_space (rev (dropWhile uni_space s)))"

fun startswith :: "ustring \<Rightarrow> ustring \<Rightarrow> bool" where
  "startswith s [] = True"
| "startswith [] (p # ps) = False"
| "startswith (c # s) (p # ps) = (c = p \<and> startswith s ps)"

text \<open>\<^verbatim>\<open>key in h\<close> on strings: \<open>key\<close> occurs in \<open>h\<close> as a contiguous substring.\<close>

fun contains :: "ustring \<Rightarrow> ustring \<Rightarrow> bool" where
  "contains [] key = (key = [])"
| "contains (c # h) key = (startswith (c # h) key \<or> contains h key)"

text \<open>
  \<^verbatim>\<open>str.splitlines()\<close>: \<open>cur\<close> is the line read so far. \<^verbatim>\<open>\r\n\<close> is one boundary, and
  no empty line follows a final boundary.
\<close>

fun splitlines_from :: "ustring \<Rightarrow> ustring \<Rightarrow> ustring list" where
  "splitlines_from cur [] = (if cur = [] then [] else [cur])"
| "splitlines_from cur [c] =
     (if uni_linebreak c then [cur] else [cur @ [c]])"
| "splitlines_from cur (c # d # r) =
     (if c = 13 \<and> d = 10 then cur # splitlines_from [] r
      else if uni_linebreak c then cur # splitlines_from [] (d # r)
      else splitlines_from (cur @ [c]) (d # r))"

definition splitlines :: "ustring \<Rightarrow> ustring list" where
  "splitlines text = splitlines_from [] text"

text \<open>\<^verbatim>\<open>sep.join(chunks)\<close>.\<close>

fun join :: "ustring \<Rightarrow> ustring list \<Rightarrow> ustring" where
  "join sep [] = []"
| "join sep [x] = x"
| "join sep (x # y # ys) = x @ sep @ join sep (y # ys)"

text \<open>
  \<^verbatim>\<open>a or b\<close> where \<open>a\<close> is \<^verbatim>\<open>None\<close> or a string: \<^verbatim>\<open>None\<close> and the empty string are false.
\<close>

definition or_else :: "ustring option \<Rightarrow> ustring \<Rightarrow> ustring" where
  "or_else a b = (case a of None \<Rightarrow> b | Some s \<Rightarrow> if s = [] then b else s)"

section \<open>Regular expressions\<close>

text \<open>
  A pattern of \<^verbatim>\<open>re\<close> is a backtracking matcher. It is modelled by the list of its
  successes at the start of the input, in the order in which backtracking finds them:
  each success is what was captured and the input that is left. A greedy repetition
  offers its longest match first, a lazy one its shortest; \<^verbatim>\<open>re.match\<close> returns the
  first success at the start of the string, \<^verbatim>\<open>re.search\<close> the first success at the
  leftmost position that has one.
\<close>

type_synonym 'a rx = "ustring \<Rightarrow> ('a \<times> ustring) list"

text \<open>A literal string: the rest of the input after it.\<close>

definition lit :: "ustring \<Rightarrow> ustring \<Rightarrow> ustring list" where
  "lit p s = (if startswith s p then [drop (length p) s] else [])"

text \<open>\<^verbatim>\<open>[cls]*\<close>, greedy.\<close>

fun star_greedy :: "(nat \<Rightarrow> bool) \<Rightarrow> ustring rx" where
  "star_greedy cls [] = [([], [])]"
| "star_greedy cls (c # s) =
     (if cls c then map (\<lambda>(m, r). (c # m, r)) (star_greedy cls s) @ [([], c # s)]
      else [([], c # s)])"

text \<open>\<^verbatim>\<open>[cls]+\<close>, greedy.\<close>

definition plus_greedy :: "(nat \<Rightarrow> bool) \<Rightarrow> ustring rx" where
  "plus_greedy cls s =
     (case s of [] \<Rightarrow> []
      | c # r \<Rightarrow> if cls c then map (\<lambda>(m, r'). (c # m, r')) (star_greedy cls r) else [])"

text \<open>\<^verbatim>\<open>[cls]*?\<close> and \<^verbatim>\<open>[cls]+?\<close>, lazy.\<close>

fun star_lazy :: "(nat \<Rightarrow> bool) \<Rightarrow> ustring rx" where
  "star_lazy cls [] = [([], [])]"
| "star_lazy cls (c # s) =
     (if cls c then ([], c # s) # map (\<lambda>(m, r). (c # m, r)) (star_lazy cls s)
      else [([], c # s)])"

definition plus_lazy :: "(nat \<Rightarrow> bool) \<Rightarrow> ustring rx" where
  "plus_lazy cls s =
     (case s of [] \<Rightarrow> []
      | c # r \<Rightarrow> if cls c then map (\<lambda>(m, r'). (c # m, r')) (star_lazy cls r) else [])"

text \<open>\<^verbatim>\<open>[cls]{n}\<close>.\<close>

fun rep_exact :: "nat \<Rightarrow> (nat \<Rightarrow> bool) \<Rightarrow> ustring rx" where
  "rep_exact 0 cls s = [([], s)]"
| "rep_exact (Suc n) cls [] = []"
| "rep_exact (Suc n) cls (c # s) =
     (if cls c then map (\<lambda>(m, r). (c # m, r)) (rep_exact n cls s) else [])"

text \<open>\<^verbatim>\<open>(?:p)?\<close>, greedy: \<open>p\<close> first, then nothing; a group inside that did not take part is \<^verbatim>\<open>None\<close>.\<close>

definition opt_greedy :: "'a rx \<Rightarrow> ('a option) rx" where
  "opt_greedy p s = map (\<lambda>(a, r). (Some a, r)) (p s) @ [(None, s)]"

definition first :: "('a \<times> ustring) list \<Rightarrow> 'a option" where
  "first rs = (case rs of [] \<Rightarrow> None | (a, r) # rest \<Rightarrow> Some a)"

text \<open>\<^verbatim>\<open>re.match(p, s)\<close> and \<^verbatim>\<open>p.search(s)\<close>: the captures of the match, or \<^verbatim>\<open>None\<close>.\<close>

definition rmatch :: "'a rx \<Rightarrow> ustring \<Rightarrow> 'a option" where
  "rmatch p s = first (p s)"

fun search :: "'a rx \<Rightarrow> ustring \<Rightarrow> 'a option" where
  "search p [] = first (p [])"
| "search p (c # s) = (case first (p (c # s)) of Some a \<Rightarrow> Some a | None \<Rightarrow> search p s)"

subsection \<open>The patterns of the program\<close>

definition ascii_letter :: "nat \<Rightarrow> bool" where
  "ascii_letter c \<longleftrightarrow> ascii_upper c \<or> ascii_lower c"

text \<open>\<^verbatim>\<open>[A-Za-z0-9_~\<dots>\-]\<close>, the third of the four single characters being U+223F.\<close>

definition tag_char :: "nat \<Rightarrow> bool" where
  "tag_char c \<longleftrightarrow>
     ascii_letter c \<or> ascii_digit c \<or> c = 95 \<or> c = 126 \<or> c = sine_wave \<or> c = 45"

text \<open>\<^verbatim>\<open>.\<close> without \<^verbatim>\<open>re.DOTALL\<close>.\<close>

definition dot :: "nat \<Rightarrow> bool" where
  "dot c \<longleftrightarrow> c \<noteq> 10"

text \<open>\<^verbatim>\<open>(?:\[(?P<layer>[A-Za-z]+)\])\<close>\<close>

definition layer_group :: "ustring rx" where
  "layer_group s0 = do {
     s1 \<leftarrow> lit (ustr ''['') s0;
     (layer, s2) \<leftarrow> plus_greedy ascii_letter s1;
     s3 \<leftarrow> lit (ustr '']'') s2;
     [(layer, s3)] }"

text \<open>\<^verbatim>\<open>(?P<date>\d{4}-\d{2}-\d{2})\<close>\<close>

definition date_group :: "(nat \<Rightarrow> bool) \<Rightarrow> ustring rx" where
  "date_group nd s0 = do {
     (y, s1) \<leftarrow> rep_exact 4 (uni_decimal nd) s0;
     s2 \<leftarrow> lit (ustr ''-'') s1;
     (m, s3) \<leftarrow> rep_exact 2 (uni_decimal nd) s2;
     s4 \<leftarrow> lit (ustr ''-'') s3;
     (d, s5) \<leftarrow> rep_exact 2 (uni_decimal nd) s4;
     [(y @ ustr ''-'' @ m @ ustr ''-'' @ d, s5)] }"

text \<open>\<^verbatim>\<open>(?P<ver>\d+\.\d+\.\d+)\<close>\<close>

definition ver_group :: "(nat \<Rightarrow> bool) \<Rightarrow> ustring rx" where
  "ver_group nd s0 = do {
     (a, s1) \<leftarrow> plus_greedy (uni_decimal nd) s0;
     s2 \<leftarrow> lit (ustr ''.'') s1;
     (b, s3) \<leftarrow> plus_greedy (uni_decimal nd) s2;
     s4 \<leftarrow> lit (ustr ''.'') s3;
     (c, s5) \<leftarrow> plus_greedy (uni_decimal nd) s4;
     [(a @ ustr ''.'' @ b @ ustr ''.'' @ c, s5)] }"

text \<open>
  \<^verbatim>\<open>TAG_RE\<close> (\<^verbatim>\<open>re.VERBOSE\<close>: the white space and the comments of the pattern are not part
  of it). The groups are \<open>layer\<close> (\<^verbatim>\<open>None\<close> when the bracket is absent), \<open>tag\<close>, \<open>date\<close>,
  \<open>ver\<close> and \<open>narr\<close>.
\<close>

record tag_groups =
  g_layer :: "ustring option"
  g_tag :: ustring
  g_date :: ustring
  g_ver :: ustring
  g_narr :: ustring

definition TAG_RE :: "(nat \<Rightarrow> bool) \<Rightarrow> tag_groups rx" where
  "TAG_RE nd s0 = do {
     s1 \<leftarrow> lit (bslash # ustr ''Tag'') s0;
     (layer, s2) \<leftarrow> opt_greedy layer_group s1;
     s3 \<leftarrow> lit (ustr ''{'') s2;
     (tag, s4) \<leftarrow> plus_greedy tag_char s3;
     s5 \<leftarrow> lit (ustr ''}'') s4;
     (w1, s6) \<leftarrow> plus_greedy uni_space s5;
     (date, s7) \<leftarrow> date_group nd s6;
     (w2, s8) \<leftarrow> plus_greedy uni_space s7;
     s9 \<leftarrow> lit (ustr ''v'') s8;
     (ver, s10) \<leftarrow> ver_group nd s9;
     (w3, s11) \<leftarrow> plus_greedy uni_space s10;
     s12 \<leftarrow> lit [em_dash] s11;
     (w4, s13) \<leftarrow> plus_greedy uni_space s12;
     (narr, s14) \<leftarrow> plus_greedy dot s13;
     [(\<lparr>g_layer = layer, g_tag = tag, g_date = date, g_ver = ver, g_narr = narr\<rparr>, s14)] }"

text \<open>\<^verbatim>\<open>HDR_RE\<close>: \<^verbatim>\<open>\\begin\{SectionHeaderLedger\}\{(?P<title>.+?)\}\<close>\<close>

definition HDR_RE :: "ustring rx" where
  "HDR_RE s0 = do {
     s1 \<leftarrow> lit (bslash # ustr ''begin{SectionHeaderLedger}{'') s0;
     (title, s2) \<leftarrow> plus_lazy dot s1;
     s3 \<leftarrow> lit (ustr ''}'') s2;
     [(title, s3)] }"

text \<open>\<^verbatim>\<open>FTR_RE\<close>: \<^verbatim>\<open>\\begin\{SectionFooterLedger\}\<close>\<close>

definition FTR_RE :: "unit rx" where
  "FTR_RE s0 = do {
     s1 \<leftarrow> lit (bslash # ustr ''begin{SectionFooterLedger}'') s0;
     [((), s1)] }"

text \<open>\<^verbatim>\<open>END_RE\<close>: \<^verbatim>\<open>\\end\{Section(?:Header|Footer)Ledger\}\<close>\<close>

definition END_RE :: "unit rx" where
  "END_RE s0 = do {
     s1 \<leftarrow> lit (bslash # ustr ''end{Section'') s0;
     s2 \<leftarrow> lit (ustr ''Header'') s1 @ lit (ustr ''Footer'') s1;
     s3 \<leftarrow> lit (ustr ''Ledger}'') s2;
     [((), s3)] }"

text \<open>\<^verbatim>\<open>SECTION_RE\<close>: \<^verbatim>\<open>\\Section(?:\[[^\]]*\])?\{[^}]*\}\{[^}]*\}\{(?P<title>[^}]+)\}\<close>\<close>

definition SECTION_RE :: "ustring rx" where
  "SECTION_RE s0 = do {
     s1 \<leftarrow> lit (bslash # ustr ''Section'') s0;
     (b, s2) \<leftarrow> opt_greedy (\<lambda>s. do {
        a1 \<leftarrow> lit (ustr ''['') s;
        (x, a2) \<leftarrow> star_greedy (\<lambda>c. c \<noteq> 93) a1;
        a3 \<leftarrow> lit (ustr '']'') a2;
        [(x, a3)] }) s1;
     s3 \<leftarrow> lit (ustr ''{'') s2;
     (x1, s4) \<leftarrow> star_greedy (\<lambda>c. c \<noteq> 125) s3;
     s5 \<leftarrow> lit (ustr ''}{'') s4;
     (x2, s6) \<leftarrow> star_greedy (\<lambda>c. c \<noteq> 125) s5;
     s7 \<leftarrow> lit (ustr ''}{'') s6;
     (title, s8) \<leftarrow> plus_greedy (\<lambda>c. c \<noteq> 125) s7;
     s9 \<leftarrow> lit (ustr ''}'') s8;
     [(title, s9)] }"

section \<open>Scraping a document\<close>

text \<open>
  An entry is the dictionary \<^verbatim>\<open>scrape_file\<close> appends, with the keys \<^verbatim>\<open>file\<close>, \<^verbatim>\<open>section\<close>,
  \<^verbatim>\<open>layer\<close>, \<^verbatim>\<open>tag\<close>, \<^verbatim>\<open>date\<close>, \<^verbatim>\<open>ver\<close> and \<^verbatim>\<open>note\<close>.
\<close>

record entry =
  "file" :: ustring
  "section" :: ustring
  layer :: ustring
  tag :: ustring
  date :: ustring
  ver :: ustring
  "note" :: ustring

text \<open>The variables of the loop of \<^verbatim>\<open>scrape_file\<close>.\<close>

record scan_state =
  in_ledger :: bool
  ledger_title :: "ustring option"
  entries :: "entry list"

definition unknown_section :: ustring where
  "unknown_section = ustr ''(unknown section)''"

text \<open>The dictionary built from a match \<open>mt\<close> of \<^verbatim>\<open>TAG_RE\<close>.\<close>

definition tag_entry :: "ustring \<Rightarrow> ustring option \<Rightarrow> ustring option \<Rightarrow> tag_groups \<Rightarrow> entry" where
  "tag_entry path ledger section_title mt =
     \<lparr>file = path,
      section = or_else ledger (or_else section_title unknown_section),
      layer = upper (or_else (g_layer mt) []),
      tag = upper (g_tag mt),
      date = g_date mt,
      ver = g_ver mt,
      note = strip (g_narr mt)\<rparr>"

text \<open>The end of the loop body: \<^verbatim>\<open>mt = TAG_RE.search(line)\<close> and the append.\<close>

definition match_tag :: "(nat \<Rightarrow> bool) \<Rightarrow> ustring \<Rightarrow> ustring option \<Rightarrow> scan_state \<Rightarrow> ustring \<Rightarrow> scan_state" where
  "match_tag nd path section_title st line =
     (case search (TAG_RE nd) line of
        None \<Rightarrow> st
      | Some mt \<Rightarrow>
          st\<lparr>entries := entries st @ [tag_entry path (ledger_title st) section_title mt]\<rparr>)"

text \<open>One turn of the loop; each \<^verbatim>\<open>continue\<close> leaves the line without matching a tag on it.\<close>

definition scan_line :: "(nat \<Rightarrow> bool) \<Rightarrow> ustring \<Rightarrow> ustring option \<Rightarrow> scan_state \<Rightarrow> ustring \<Rightarrow> scan_state" where
  "scan_line nd path section_title st line =
     (if \<not> in_ledger st then
        (case search HDR_RE line of
           Some title \<Rightarrow> st\<lparr>in_ledger := True, ledger_title := Some title\<rparr>
         | None \<Rightarrow>
            (case search FTR_RE line of
               Some u \<Rightarrow>
                 st\<lparr>in_ledger := True,
                    ledger_title := Some (or_else section_title unknown_section)\<rparr>
             | None \<Rightarrow> match_tag nd path section_title st line))
      else
        (case search END_RE line of
           Some u \<Rightarrow> st\<lparr>in_ledger := False, ledger_title := None\<rparr>
         | None \<Rightarrow> match_tag nd path section_title st line))"

definition scan_lines :: "(nat \<Rightarrow> bool) \<Rightarrow> ustring \<Rightarrow> ustring option \<Rightarrow> scan_state \<Rightarrow> ustring list \<Rightarrow> scan_state" where
  "scan_lines nd path section_title st ls = foldl (scan_line nd path section_title) st ls"

definition scan_init :: scan_state where
  "scan_init = \<lparr>in_ledger = False, ledger_title = None, entries = []\<rparr>"

text \<open>\<^verbatim>\<open>scrape_file\<close> after the text has been read.\<close>

definition scrape_text :: "(nat \<Rightarrow> bool) \<Rightarrow> ustring \<Rightarrow> ustring \<Rightarrow> entry list" where
  "scrape_text nd path text =
     (let section_title = search SECTION_RE text
      in entries (scan_lines nd path section_title scan_init (splitlines text)))"

text \<open>
  \<^verbatim>\<open>scrape_file\<close>. The file system is the map \<open>fs\<close> from a path to the text
  \<^verbatim>\<open>read_text\<close> returns, \<^verbatim>\<open>None\<close> where reading raises; the warning written to
  \<^verbatim>\<open>stderr\<close> is not modelled.
\<close>

definition scrape_file :: "(nat \<Rightarrow> bool) \<Rightarrow> (ustring \<rightharpoonup> ustring) \<Rightarrow> ustring \<Rightarrow> entry list" where
  "scrape_file nd fs path =
     (case fs path of None \<Rightarrow> [] | Some text \<Rightarrow> scrape_text nd path text)"

section \<open>The registry\<close>

definition STRUCTURAL :: ustring where
  "STRUCTURAL = ustr ''Structural''"

definition PROCESS :: ustring where
  "PROCESS = ustr ''Process''"

definition SYMBOLIC :: ustring where
  "SYMBOLIC = ustr ''Symbolic''"

definition META :: ustring where
  "META = ustr ''Meta''"

definition EPIPHANY :: ustring where
  "EPIPHANY = ustr ''Epiphany''"

definition UNKNOWN :: ustring where
  "UNKNOWN = ustr ''Unknown''"

definition families :: "ustring list" where
  "families = [STRUCTURAL, PROCESS, SYMBOLIC, META, EPIPHANY]"

definition builtin_items :: "(ustring \<times> ustring) list" where
  "builtin_items =
     map (\<lambda>t. (ustr t, STRUCTURAL))
       [''GLYPH'', ''NODE'', ''ARC'', ''LATTICE'', ''CORE'', ''GATE'', ''BOND'', ''SEED'',
        ''SPINE'', ''KEY''] @
     map (\<lambda>t. (ustr t, PROCESS))
       [''DRIFT'', ''ANCHOR'', ''FUSE'', ''REFRACT'', ''SPIRAL'', ''TEMPER'', ''CAST'',
        ''WARD'', ''TRACE'', ''FLOW'', ''BIND''] @
     map (\<lambda>t. (ustr t, SYMBOLIC))
       [''LIGHT'', ''SHDW'', ''MOTHER'', ''FATHER'', ''AIR'', ''FIRE'', ''WATER'', ''EARTH'',
        ''GNOME'', ''OPAL'', ''COMPASS'', ''LAMP'', ''FORGE''] @
     map (\<lambda>t. (ustr t, META))
       [''META'', ''ENGRAM'', ''LEDGER'', ''TEST'', ''PROOF'', ''CIPHER'', ''MAP'', ''GLOSS'',
        ''ARCHIVE'', ''ITER''] @
     map (\<lambda>t. (ustr t, EPIPHANY))
       [''ARC_CLIMAX'', ''GATE_OPEN'', ''GATE_CLOSE'', ''CORE_REVEAL'', ''SPIRAL_TURN'',
        ''FORGE_STRIKE'']"

text \<open>\<^verbatim>\<open>BUILTIN_REGISTRY\<close>; no key is written twice in the literal.\<close>

definition BUILTIN_REGISTRY :: "ustring \<rightharpoonup> ustring" where
  "BUILTIN_REGISTRY = map_of builtin_items"

text \<open>\<^verbatim>\<open>family_map\<close> of \<^verbatim>\<open>load_registry_from_md\<close>, in the order of the literal, which is the order the loop over \<^verbatim>\<open>family_map.items()\<close> tries the keys in.\<close>

definition family_map :: "(ustring \<times> ustring) list" where
  "family_map =
     [(ustr ''Structural'', STRUCTURAL), (ustr ''Framework'', STRUCTURAL),
      (ustr ''Process'', PROCESS), (ustr ''Development'', PROCESS),
      (ustr ''Symbolic'', SYMBOLIC), (ustr ''Philosophical'', SYMBOLIC),
      (ustr ''Meta'', META), (ustr ''Operational'', META),
      (ustr ''Seeded Epiphany Matrix'', EPIPHANY), (ustr ''Epiphany'', EPIPHANY)]"

text \<open>\<^verbatim>\<open>[A-Z0-9_]\<close>\<close>

definition reg_char :: "nat \<Rightarrow> bool" where
  "reg_char c \<longleftrightarrow> ascii_upper c \<or> ascii_digit c \<or> c = 95"

text \<open>The group \<^verbatim>\<open>([A-Z][A-Z0-9_]+)\<close> of both patterns of the parser.\<close>

definition reg_tag_group :: "ustring rx" where
  "reg_tag_group s0 = do {
     (a, s1) \<leftarrow> rep_exact 1 ascii_upper s0;
     (b, s2) \<leftarrow> plus_greedy reg_char s1;
     [(a @ b, s2)] }"

text \<open>\<^verbatim>\<open>^\|\s*([A-Z][A-Z0-9_]+)\s*\|\<close>, used with \<^verbatim>\<open>re.match\<close>.\<close>

definition TBL_RE :: "ustring rx" where
  "TBL_RE s0 = do {
     s1 \<leftarrow> lit (ustr ''|'') s0;
     (w1, s2) \<leftarrow> star_greedy uni_space s1;
     (t, s3) \<leftarrow> reg_tag_group s2;
     (w2, s4) \<leftarrow> star_greedy uni_space s3;
     s5 \<leftarrow> lit (ustr ''|'') s4;
     [(t, s5)] }"

text \<open>\<^verbatim>\<open>\[(?P<tag>[A-Z][A-Z0-9_]+)\]\<close>, used with \<^verbatim>\<open>re.search\<close>.\<close>

definition DESC_RE :: "ustring rx" where
  "DESC_RE s0 = do {
     s1 \<leftarrow> lit (ustr ''['') s0;
     (t, s2) \<leftarrow> reg_tag_group s1;
     s3 \<leftarrow> lit (ustr '']'') s2;
     [(t, s3)] }"

text \<open>The variables of the loop of \<^verbatim>\<open>load_registry_from_md\<close>.\<close>

record md_state =
  tag_to_family :: "ustring \<rightharpoonup> ustring"
  current_family :: "ustring option"

text \<open>
  The description branch of that loop: \<^verbatim>\<open>m_desc\<close> and \<^verbatim>\<open>if m_desc and current_family\<close>
  on the stripped line \<open>h\<close>.
\<close>

definition md_desc :: "md_state \<Rightarrow> ustring \<Rightarrow> md_state" where
  "md_desc st h =
     (case search DESC_RE h of
        None \<Rightarrow> st
      | Some t \<Rightarrow>
         (case current_family st of
            None \<Rightarrow> st
          | Some fam \<Rightarrow>
             if fam \<noteq> [] then st\<lparr>tag_to_family := (tag_to_family st)(upper t \<mapsto> fam)\<rparr>
             else st))"

text \<open>
  One turn of that loop. A heading sets the family of the first key of \<^verbatim>\<open>family_map\<close>
  it contains and keeps the current one when it contains none; a table row is tried
  before a description.
\<close>

definition md_line :: "md_state \<Rightarrow> ustring \<Rightarrow> md_state" where
  "md_line st line =
     (let h = strip line in
      if startswith h (ustr ''## '') then
        (case find (\<lambda>(key, fam). contains h key) family_map of
           Some (key, fam) \<Rightarrow> st\<lparr>current_family := Some fam\<rparr>
         | None \<Rightarrow> st)
      else
        (case rmatch TBL_RE h of
           None \<Rightarrow> md_desc st h
         | Some t \<Rightarrow>
            (case current_family st of
               None \<Rightarrow> md_desc st h
             | Some fam \<Rightarrow>
                if fam \<noteq> [] then st\<lparr>tag_to_family := (tag_to_family st)(upper t \<mapsto> fam)\<rparr>
                else md_desc st h)))"

definition md_init :: md_state where
  "md_init = \<lparr>tag_to_family = Map.empty, current_family = None\<rparr>"

text \<open>
  \<^verbatim>\<open>load_registry_from_md\<close>, on the file system \<open>fs\<close>: an unreadable file gives the empty
  dictionary.
\<close>

definition load_registry_from_md :: "(ustring \<rightharpoonup> ustring) \<Rightarrow> ustring \<Rightarrow> (ustring \<rightharpoonup> ustring)" where
  "load_registry_from_md fs path =
     (case fs path of
        None \<Rightarrow> Map.empty
      | Some text \<Rightarrow> tag_to_family (foldl md_line md_init (splitlines text)))"

text \<open>
  \<^verbatim>\<open>get_registry\<close>; \<open>tags_reg\<close> is \<^verbatim>\<open>args.tags_reg\<close>, \<^verbatim>\<open>None\<close> by default. \<^verbatim>\<open>reg.update(md_map)\<close>
  is the map addition \<open>++\<close>, in which the right operand wins.
\<close>

definition get_registry :: "(ustring \<rightharpoonup> ustring) \<Rightarrow> ustring option \<Rightarrow> (ustring \<rightharpoonup> ustring)" where
  "get_registry fs tags_reg =
     (let reg = BUILTIN_REGISTRY in
      case tags_reg of
        None \<Rightarrow> reg
      | Some p \<Rightarrow> if p \<noteq> [] then reg ++ load_registry_from_md fs p else reg)"

section \<open>Classification\<close>

text \<open>An entry with the key \<^verbatim>\<open>family\<close> added.\<close>

record enriched = entry +
  family :: ustring

text \<open>\<^verbatim>\<open>enrich_with_family\<close>: \<^verbatim>\<open>registry.get\<close> is the lookup, and \<^verbatim>\<open>fam if fam else "Unknown"\<close> tests the truthiness of what it found.\<close>

definition enrich_with_family :: "entry list \<Rightarrow> (ustring \<rightharpoonup> ustring) \<Rightarrow> enriched list" where
  "enrich_with_family es registry =
     map (\<lambda>e. \<lparr>file = file e, section = section e, layer = layer e, tag = tag e,
               date = date e, ver = ver e, note = note e,
               family = or_else (registry (tag e)) UNKNOWN\<rparr>) es"

text \<open>
  \<^verbatim>\<open>unknowns\<close> of \<^verbatim>\<open>main\<close>: \<^verbatim>\<open>sorted\<close> of the set of the tags whose family is
  \<^verbatim>\<open>"Unknown"\<close>.
\<close>

definition unknowns :: "enriched list \<Rightarrow> ustring list" where
  "unknowns es = sort (remdups (map tag (filter (\<lambda>e. family e = UNKNOWN) es)))"

section \<open>The narrative projection\<close>

text \<open>
  \<^verbatim>\<open>list.sort(key=k, reverse=True)\<close> and \<^verbatim>\<open>sorted(xs, reverse=True)\<close>: a stable sort in
  descending order, records of equal keys keeping the order they had.
\<close>

definition sort_desc :: "('a \<Rightarrow> 'k::linorder) \<Rightarrow> 'a list \<Rightarrow> 'a list" where
  "sort_desc k xs = rev (sort_key k (rev xs))"

text \<open>\<^verbatim>\<open>groups[k].append(e)\<close> on a dictionary that keeps its keys in insertion order.\<close>

fun group_append :: "'k \<Rightarrow> 'a \<Rightarrow> ('k \<times> 'a list) list \<Rightarrow> ('k \<times> 'a list) list" where
  "group_append k e [] = [(k, [e])]"
| "group_append k e ((k', es) # g) =
     (if k = k' then (k', es @ [e]) # g else (k', es) # group_append k e g)"

definition md_key :: "'a entry_scheme \<Rightarrow> ustring \<times> ustring" where
  "md_key e = (date e, ver e)"

definition group_entries :: "'a entry_scheme list \<Rightarrow> ((ustring \<times> ustring) \<times> 'a entry_scheme list) list" where
  "group_entries es = foldl (\<lambda>g e. group_append (md_key e) e g) [] es"

datatype py_error = IndexError

definition render_item :: "'a entry_scheme \<Rightarrow> ustring" where
  "render_item it =
     (let layer_tag =
        (if layer it \<noteq> [] then ustr ''['' @ layer it @ ustr '':'' @ tag it @ ustr '']''
         else ustr ''['' @ tag it @ ustr '']'')
      in ustr ''- **'' @ layer_tag @ ustr ''** ('' @ section it @ ustr '') '' @ [em_dash] @
         ustr '' '' @ note it)"

text \<open>
  The chunks of one group; \<^verbatim>\<open>items[0]\<close> raises \<^verbatim>\<open>IndexError\<close> on an empty list.
\<close>

fun render_group :: "(ustring \<times> ustring) \<times> 'a entry_scheme list \<Rightarrow> py_error + ustring list" where
  "render_group ((d, v), []) = Inl IndexError"
| "render_group ((d, v), it0 # its) =
     (let items = it0 # its;
          title = section it0;
          header =
            (if list_ex (\<lambda>it. section it \<noteq> title) items
             then ustr ''## '' @ d @ ustr '' '' @ [em_dash] @ ustr '' v'' @ v @ ustr '' '' @
                  [em_dash] @ ustr '' Section updates''
             else ustr ''## '' @ d @ ustr '' '' @ [em_dash] @ ustr '' v'' @ v @ ustr '' '' @
                  [em_dash] @ ustr '' Section updates: '' @ title)
      in Inr (header # map render_item items @ [[10] @ ustr ''---'' @ [10]]))"

fun render_groups :: "((ustring \<times> ustring) \<times> 'a entry_scheme list) list \<Rightarrow> py_error + ustring list" where
  "render_groups [] = Inr []"
| "render_groups (g # gs) =
     (case render_group g of
        Inl err \<Rightarrow> Inl err
      | Inr chunks \<Rightarrow>
         (case render_groups gs of
            Inl err \<Rightarrow> Inl err
          | Inr others \<Rightarrow> Inr (chunks @ others)))"

text \<open>
  The groups in the order in which \<^verbatim>\<open>format_markdown\<close> renders them:
  \<^verbatim>\<open>sorted(groups.items(), reverse=True)\<close> of the groups of the sorted list. The keys
  of a dictionary differ, so the comparison of two items is decided by their keys.
\<close>

definition md_groups :: "'a entry_scheme list \<Rightarrow> ((ustring \<times> ustring) \<times> 'a entry_scheme list) list" where
  "md_groups es = sort_desc fst (group_entries (sort_desc md_key es))"

definition no_matches :: ustring where
  "no_matches = ustr ''[info] no matching tags found.''"

text \<open>
  \<^verbatim>\<open>format_markdown\<close>. \<^verbatim>\<open>entries.sort\<close> sorts the caller's list in place, so the function
  returns the list as it leaves it beside the text (or the error raised).
\<close>

definition format_markdown :: "'a entry_scheme list \<Rightarrow> (py_error + ustring) \<times> 'a entry_scheme list" where
  "format_markdown es =
     (if es = [] then (Inr no_matches, es)
      else
        (let es' = sort_desc md_key es in
         (case render_groups (sort_desc fst (group_entries es')) of
            Inl err \<Rightarrow> Inl err
          | Inr chunks \<Rightarrow> Inr (strip (join [10] chunks)),
          es')))"

section \<open>Example inputs\<close>

text \<open>
  A file system holding one registry document, whose table row moves \<^verbatim>\<open>SEED\<close> to the
  family \<^verbatim>\<open>Meta\<close>.
\<close>

definition fs_tags :: "ustring \<rightharpoonup> ustring" where
  "fs_tags = [ustr ''TAGS.md'' \<mapsto> ustr ''## Meta'' @ [10] @ ustr ''| SEED | x |'']"

definition e_seed :: entry where
  "e_seed = \<lparr>file = ustr ''a.tex'', section = ustr ''Origins'', layer = ustr ''ONTO'',
     tag = ustr ''SEED'', date = ustr ''2024-03-01'', ver = ustr ''1.2.0'',
     note = ustr ''Initial seed.''\<rparr>"

definition e_zzz :: entry where
  "e_zzz = \<lparr>file = ustr ''a.tex'', section = ustr ''Origins'', layer = [],
     tag = ustr ''ZZZTOP'', date = ustr ''2024-03-02'', ver = ustr ''1.2.1'',
     note = ustr ''Unregistered.''\<rparr>"

text \<open>
  Two dictionaries whose values are not taxonomy names: one maps \<^verbatim>\<open>SEED\<close> to the empty
  string, the other to \<^verbatim>\<open>Custom\<close>.
\<close>

definition reg_blank :: "ustring \<rightharpoonup> ustring" where
  "reg_blank = [ustr ''SEED'' \<mapsto> []]"

definition reg_custom :: "ustring \<rightharpoonup> ustring" where
  "reg_custom = [ustr ''SEED'' \<mapsto> ustr ''Custom'']"

definition e_jan :: enriched where
  "e_jan = \<lparr>file = ustr ''a.tex'', section = ustr ''Origins'', layer = ustr ''ONTO'',
     tag = ustr ''SEED'', date = ustr ''2024-01-01'', ver = ustr ''1.0.0'',
     note = ustr ''Initial seed.'', family = STRUCTURAL\<rparr>"

definition e_jun :: enriched where
  "e_jun = \<lparr>file = ustr ''a.tex'', section = ustr ''Origins'', layer = [],
     tag = ustr ''GLYPH'', date = ustr ''2024-06-01'', ver = ustr ''2.0.0'',
     note = ustr ''Second pass.'', family = STRUCTURAL\<rparr>"


section \<open>The tracker, in the words of the specification\<close>

text \<open>
  The title context of the specification: the current ledger title inside a ledger,
  else the section title, else the sentinel.
\<close>

definition title_context :: "ustring option \<Rightarrow> scan_state \<Rightarrow> ustring" where
  "title_context section_title st =
     (if in_ledger st then the (ledger_title st)
      else case section_title of Some t \<Rightarrow> t | None \<Rightarrow> unknown_section)"

text \<open>The lines on which the tracker changes state and the loop takes \<^verbatim>\<open>continue\<close>.\<close>

definition transition_line :: "scan_state \<Rightarrow> ustring \<Rightarrow> bool" where
  "transition_line st line =
     (if in_ledger st then search END_RE line \<noteq> None
      else search HDR_RE line \<noteq> None \<or> search FTR_RE line \<noteq> None)"

text \<open>Lines of example documents.\<close>

definition tag_line :: ustring where
  "tag_line = bslash # ustr ''Tag[ONTO]{SEED} 2024-03-01 v1.2.0 '' @ [em_dash] @
     ustr '' Initial seed.''"

definition hdr_line :: ustring where
  "hdr_line = bslash # ustr ''begin{SectionHeaderLedger}{Origins}''"

definition end_line :: ustring where
  "end_line = bslash # ustr ''end{SectionHeaderLedger}''"

definition hdr_tag_line :: ustring where
  "hdr_tag_line = hdr_line @ ustr '' '' @ tag_line"

definition hdr_end_line :: ustring where
  "hdr_end_line = hdr_line @ end_line"

section \<open>The tags of a registry document\<close>

text \<open>
  The shape \<^verbatim>\<open>[A-Z][A-Z0-9_]+\<close> of a tag name: an upper-case letter followed by one or more
  upper-case letters, digits or underscores.
\<close>

definition reg_tag_shape :: "ustring \<Rightarrow> bool" where
  "reg_tag_shape t =
     (case t of [] \<Rightarrow> False | c # cs \<Rightarrow> ascii_upper c \<and> cs \<noteq> [] \<and> list_all reg_char cs)"

text \<open>A registry document that offers a hyphenated tag, a one-letter tag and \<^verbatim>\<open>SEED\<close>.\<close>

definition fs_odd :: "ustring \<rightharpoonup> ustring" where
  "fs_odd = [ustr ''TAGS.md'' \<mapsto>
     ustr ''## Meta'' @ [10] @ ustr ''| NEW-TAG | x |'' @ [10] @ ustr ''- [X] single'' @ [10] @
     ustr ''| SEED | x |'']"

section \<open>Formatting an annotation line\<close>




section \<open>Invariants of the loops\<close>


text \<open>The families every state of the loop of \<^verbatim>\<open>load_registry_from_md\<close> holds are taxonomy names.\<close>

definition md_ok :: "md_state \<Rightarrow> bool" where
  "md_ok st \<longleftrightarrow>
     (\<forall>t f. tag_to_family st t = Some f \<longrightarrow> f \<in> set families) \<and>
     (\<forall>f. current_family st = Some f \<longrightarrow> f \<in> set families)"

text \<open>What holds of the tracker variables in every state the loop reaches.\<close>

definition scan_inv :: "scan_state \<Rightarrow> bool" where
  "scan_inv st \<longleftrightarrow>
     (if in_ledger st then \<exists>t. ledger_title st = Some t \<and> t \<noteq> [] else ledger_title st = None)"

text \<open>The tags every state of the loop of \<^verbatim>\<open>load_registry_from_md\<close> holds.\<close>

definition md_shaped :: "md_state \<Rightarrow> bool" where
  "md_shaped st \<longleftrightarrow> (\<forall>t\<in>dom (tag_to_family st). reg_tag_shape t)"

section \<open>Properties of the matchers\<close>

text \<open>The definitions a concrete run unfolds.\<close>

lemmas char_defs =
  ustr_def bslash_def em_dash_def sine_wave_def uni_space_def uni_linebreak_def
  uni_decimal_def nd_latin_def ascii_upper_def ascii_lower_def ascii_digit_def
  ascii_letter_def tag_char_def reg_char_def dot_def upper_char_def upper_def strip_def

lemmas rx_defs =
  lit_def plus_greedy_def plus_lazy_def opt_greedy_def first_def rmatch_def
  layer_group_def date_group_def ver_group_def TAG_RE_def HDR_RE_def FTR_RE_def
  END_RE_def SECTION_RE_def reg_tag_group_def TBL_RE_def DESC_RE_def

lemmas family_defs =
  STRUCTURAL_def PROCESS_def SYMBOLIC_def META_def EPIPHANY_def UNKNOWN_def families_def

lemma startswith_iff: "startswith s p \<longleftrightarrow> (\<exists>r. s = p @ r)"
  by (induction s p rule: startswith.induct) auto

lemma lit_set: "r \<in> set (lit p s) \<longleftrightarrow> s = p @ r"
  by (auto simp: lit_def startswith_iff)

lemma cons_image_iff:
  "(m, r) \<in> (\<lambda>(m, r). (c # m, r)) ` S \<longleftrightarrow> (\<exists>m'. m = c # m' \<and> (m', r) \<in> S)"
  by force

lemma star_greedy_set:
  "(m, r) \<in> set (star_greedy cls s) \<longleftrightarrow> s = m @ r \<and> (\<forall>c\<in>set m. cls c)"
proof (induction s arbitrary: m)
  case Nil
  then show ?case by auto
next
  case (Cons c s)
  then show ?case by (cases m) (auto simp: cons_image_iff)
qed

lemma plus_greedy_set:
  "(m, r) \<in> set (plus_greedy cls s) \<longleftrightarrow> s = m @ r \<and> m \<noteq> [] \<and> (\<forall>c\<in>set m. cls c)"
  by (cases s; cases m) (auto simp: plus_greedy_def star_greedy_set cons_image_iff)

lemma star_lazy_set:
  "(m, r) \<in> set (star_lazy cls s) \<longleftrightarrow> s = m @ r \<and> (\<forall>c\<in>set m. cls c)"
proof (induction s arbitrary: m)
  case Nil
  then show ?case by auto
next
  case (Cons c s)
  then show ?case by (cases m) (auto simp: cons_image_iff)
qed

lemma plus_lazy_set:
  "(m, r) \<in> set (plus_lazy cls s) \<longleftrightarrow> s = m @ r \<and> m \<noteq> [] \<and> (\<forall>c\<in>set m. cls c)"
  by (cases s; cases m) (auto simp: plus_lazy_def star_lazy_set cons_image_iff)

lemma rep_exact_set:
  "(m, r) \<in> set (rep_exact n cls s) \<longleftrightarrow> s = m @ r \<and> length m = n \<and> (\<forall>c\<in>set m. cls c)"
proof (induction n cls s arbitrary: m rule: rep_exact.induct)
  case (1 cls s)
  then show ?case by auto
next
  case (2 n cls)
  then show ?case by auto
next
  case (3 n cls c s)
  then show ?case by (cases m) (auto simp: cons_image_iff)
qed


lemma first_SomeD: "first rs = Some a \<Longrightarrow> \<exists>r. (a, r) \<in> set rs"
  by (auto simp: first_def split: list.splits)

lemma first_None_iff: "first rs = None \<longleftrightarrow> rs = []"
  by (auto simp: first_def split: list.splits)

text \<open>What \<^verbatim>\<open>search\<close> returns is a success of the pattern somewhere in the string.\<close>

lemma search_SomeD: "search p s = Some a \<Longrightarrow> \<exists>s' r. (a, r) \<in> set (p s')"
proof (induction p s rule: search.induct)
  case (1 p)
  then have "first (p []) = Some a" by simp
  from first_SomeD[OF this] obtain r where "(a, r) \<in> set (p [])" ..
  then show ?case by (intro exI)
next
  case (2 p c s)
  show ?case
  proof (cases "first (p (c # s))")
    case None
    with 2 show ?thesis by simp
  next
    case (Some b)
    with 2 have "first (p (c # s)) = Some a" by simp
    from first_SomeD[OF this] obtain r where "(a, r) \<in> set (p (c # s))" ..
    then show ?thesis by (intro exI)
  qed
qed


section \<open>The registry and the classifier\<close>

lemmas md_defs =
  load_registry_from_md_def splitlines_def md_line_def md_desc_def md_init_def
  family_map_def get_registry_def




lemma builtin_SEED: "BUILTIN_REGISTRY (ustr ''SEED'') = Some STRUCTURAL"
  by (simp add: BUILTIN_REGISTRY_def builtin_items_def char_defs family_defs)



lemma families_truthy: "f \<in> set families \<Longrightarrow> f \<noteq> [] \<and> f \<noteq> UNKNOWN"
  by (auto simp: family_defs ustr_def)

lemma builtin_families: "BUILTIN_REGISTRY t = Some f \<Longrightarrow> f \<in> set families"
proof -
  assume "BUILTIN_REGISTRY t = Some f"
  then have "(t, f) \<in> set builtin_items"
    unfolding BUILTIN_REGISTRY_def by (rule map_of_SomeD)
  then show ?thesis
    unfolding builtin_items_def families_def by auto
qed

lemma family_map_families: "(key, fam) \<in> set family_map \<Longrightarrow> fam \<in> set families"
  by (auto simp: family_map_def families_def)

lemma md_desc_ok: "md_ok st \<Longrightarrow> md_ok (md_desc st h)"
  by (auto simp: md_ok_def md_desc_def split: option.splits)

lemma md_line_ok: "md_ok st \<Longrightarrow> md_ok (md_line st line)"
proof -
  assume ok: "md_ok st"
  have "md_ok (st\<lparr>current_family := Some fam\<rparr>)"
    if "find (\<lambda>(key, fam). contains h key) family_map = Some (key, fam)" for h key fam
  proof -
    from that have "(key, fam) \<in> set family_map"
      by (auto simp: find_Some_iff in_set_conv_nth)
    then show ?thesis using ok family_map_families by (auto simp: md_ok_def)
  qed
  moreover have "md_ok (st\<lparr>tag_to_family := (tag_to_family st)(t \<mapsto> fam)\<rparr>)"
    if "current_family st = Some fam" for t fam
    using ok that by (auto simp: md_ok_def)
  ultimately show ?thesis
    using ok md_desc_ok[OF ok]
    by (auto simp: md_line_def Let_def split: option.splits)
qed

lemma md_lines_ok: "md_ok st \<Longrightarrow> md_ok (foldl md_line st ls)"
  by (induction ls arbitrary: st) (auto intro: md_line_ok)

lemma load_families: "load_registry_from_md fs p t = Some f \<Longrightarrow> f \<in> set families"
proof -
  assume a: "load_registry_from_md fs p t = Some f"
  have "md_ok md_init" by (simp add: md_ok_def md_init_def)
  then have "md_ok (foldl md_line md_init ls)" for ls by (rule md_lines_ok)
  with a show ?thesis
    by (auto simp: load_registry_from_md_def md_ok_def split: option.splits)
qed

lemma get_registry_families: "get_registry fs tags_reg t = Some f \<Longrightarrow> f \<in> set families"
  by (auto simp: get_registry_def Let_def map_add_def split: option.splits if_splits
      dest: builtin_families load_families)

lemma or_else_family:
  assumes "\<forall>f. r = Some f \<longrightarrow> f \<in> set families"
  shows "(or_else r UNKNOWN \<in> set families \<or> or_else r UNKNOWN = UNKNOWN) \<and>
         (or_else r UNKNOWN = UNKNOWN \<longleftrightarrow> r = None)"
  using assms families_truthy by (cases r) (auto simp: or_else_def)

lemma enrich_family:
  "e \<in> set (enrich_with_family es registry) \<Longrightarrow>
   \<exists>e0\<in>set es. family e = or_else (registry (tag e0)) UNKNOWN \<and> tag e = tag e0"
  by (auto simp: enrich_with_family_def)

text \<open>
  C4, as the code has it. For a registry whose values are taxonomy names (as every
  registry \<^verbatim>\<open>get_registry\<close> builds is, \<open>get_registry_families\<close>), \<^verbatim>\<open>enrich_with_family\<close>
  returns one record per record given, with the same tags, and each carries a family
  that is a taxonomy name or \<^verbatim>\<open>"Unknown"\<close>; it is \<^verbatim>\<open>"Unknown"\<close> exactly when the record's tag
  is not in the registry.
\<close>

theorem enrich_with_family_total:
  assumes "\<forall>t f. registry t = Some f \<longrightarrow> f \<in> set families"
  shows "length (enrich_with_family es registry) = length es \<and>
         map tag (enrich_with_family es registry) = map tag es \<and>
         (\<forall>e\<in>set (enrich_with_family es registry).
            (family e \<in> set families \<or> family e = UNKNOWN) \<and>
            (family e = UNKNOWN \<longleftrightarrow> registry (tag e) = None))"
proof (intro conjI ballI)
  show "length (enrich_with_family es registry) = length es"
    by (simp add: enrich_with_family_def)
  show "map tag (enrich_with_family es registry) = map tag es"
    by (simp add: enrich_with_family_def comp_def)
next
  fix e
  assume "e \<in> set (enrich_with_family es registry)"
  from enrich_family[OF this] obtain e0 :: entry
    where e: "family e = or_else (registry (tag e0)) UNKNOWN" "tag e = tag e0"
    by blast
  have h: "\<forall>f. registry (tag e0) = Some f \<longrightarrow> f \<in> set families"
    using assms by blast
  from or_else_family[OF h] e
  show "family e \<in> set families \<or> family e = UNKNOWN"
    and "family e = UNKNOWN \<longleftrightarrow> registry (tag e) = None"
    by auto
qed

text \<open>
  C4 as stated, for every registry, fails: \<^verbatim>\<open>enrich_with_family\<close> copies whatever string
  the dictionary holds and takes a false one for absent. A tag mapped to the empty string
  is in the registry and is classified \<^verbatim>\<open>"Unknown"\<close>; a tag mapped to \<^verbatim>\<open>Custom\<close> gets a
  family that is neither a taxonomy name nor \<^verbatim>\<open>"Unknown"\<close>.
\<close>

theorem enrich_with_family_odd_registry:
  "reg_blank (ustr ''SEED'') \<noteq> None \<and>
   family (enrich_with_family [e_seed] reg_blank ! 0) = UNKNOWN \<and>
   family (enrich_with_family [e_seed] reg_custom ! 0) = ustr ''Custom'' \<and>
   ustr ''Custom'' \<notin> set families \<and> ustr ''Custom'' \<noteq> UNKNOWN"
  by (simp add: reg_blank_def reg_custom_def enrich_with_family_def e_seed_def or_else_def
      family_defs ustr_def)

lemma builtin_ZZZTOP: "BUILTIN_REGISTRY (ustr ''ZZZTOP'') = None"
  by (simp add: BUILTIN_REGISTRY_def builtin_items_def char_defs family_defs)

theorem enrich_with_family_total_witness:
  "family (enrich_with_family [e_seed, e_zzz] BUILTIN_REGISTRY ! 0) \<in> set families \<and>
   family (enrich_with_family [e_seed, e_zzz] BUILTIN_REGISTRY ! 1) = UNKNOWN"
proof -
  let ?out = "enrich_with_family [e_seed, e_zzz] BUILTIN_REGISTRY"
  have h: "\<forall>t f. BUILTIN_REGISTRY t = Some f \<longrightarrow> f \<in> set families"
    using builtin_families by blast
  note tot = enrich_with_family_total[OF h, of "[e_seed, e_zzz]"]
  have out: "?out = [?out ! 0, ?out ! 1]"
    by (simp add: enrich_with_family_def)
  have tags: "tag (?out ! 0) = ustr ''SEED''" "tag (?out ! 1) = ustr ''ZZZTOP''"
    by (simp_all add: enrich_with_family_def e_seed_def e_zzz_def)
  have "?out ! 0 \<in> set ?out" "?out ! 1 \<in> set ?out"
    by (subst (2) out, simp)+
  with tot have
    "(family (?out ! 0) \<in> set families \<or> family (?out ! 0) = UNKNOWN) \<and>
     (family (?out ! 0) = UNKNOWN \<longleftrightarrow> BUILTIN_REGISTRY (tag (?out ! 0)) = None)"
    "family (?out ! 1) = UNKNOWN \<longleftrightarrow> BUILTIN_REGISTRY (tag (?out ! 1)) = None"
    by blast+
  then show ?thesis
    unfolding tags builtin_SEED builtin_ZZZTOP by auto
qed

lemma count_list_distinct: "distinct xs \<Longrightarrow> x \<in> set xs \<Longrightarrow> count_list xs x = 1"
  by (induction xs) auto

lemma unknowns_set: "set (unknowns cl) = {tag e |e. e \<in> set cl \<and> family e = UNKNOWN}"
  by (auto simp: unknowns_def)

lemma unknowns_sorted: "sorted (unknowns cl) \<and> distinct (unknowns cl)"
  by (simp add: unknowns_def)

lemma enrich_tags: "tag ` set (enrich_with_family es reg) = tag ` set es"
  by (simp add: enrich_with_family_def image_image)

lemma enrich_absent:
  "reg t = None \<Longrightarrow> e \<in> set (enrich_with_family es reg) \<Longrightarrow> tag e = t \<Longrightarrow>
   family e = UNKNOWN"
  by (auto simp: enrich_with_family_def or_else_def)

text \<open>
  C9. A tag \<open>t\<close> that is in neither registry source (the built-in registry, and the
  registry document when one is given) is classified \<^verbatim>\<open>"Unknown"\<close> in every record that
  carries it, and occurs exactly once in the diagnostic list \<^verbatim>\<open>unknowns\<close> however many
  records carry it. For every classified list, \<^verbatim>\<open>unknowns\<close> is sorted, has no duplicates,
  and holds exactly the tags of the records whose family is \<^verbatim>\<open>"Unknown"\<close>.
\<close>

theorem unknowns_once:
  assumes "BUILTIN_REGISTRY t = None"
    and "\<forall>p. tags_reg = Some p \<longrightarrow> load_registry_from_md fs p t = None"
  shows "(\<forall>e\<in>set (enrich_with_family es (get_registry fs tags_reg)).
            tag e = t \<longrightarrow> family e = UNKNOWN) \<and>
         (t \<in> tag ` set es \<longrightarrow>
            count_list (unknowns (enrich_with_family es (get_registry fs tags_reg))) t = 1) \<and>
         sorted (unknowns cl) \<and> distinct (unknowns cl) \<and>
         set (unknowns cl) = {tag e |e. e \<in> set cl \<and> family e = UNKNOWN}"
proof -
  let ?reg = "get_registry fs tags_reg"
  let ?out = "enrich_with_family es ?reg"
  have none: "?reg t = None"
    using assms by (auto simp: get_registry_def Let_def map_add_def split: option.splits)
  have fam: "\<forall>e\<in>set ?out. tag e = t \<longrightarrow> family e = UNKNOWN"
    using enrich_absent[of "get_registry fs tags_reg" t _ es, OF none] by blast
  have cnt: "count_list (unknowns ?out) t = 1" if "t \<in> tag ` set es"
  proof -
    from that have "t \<in> tag ` set ?out"
      by (simp only: enrich_tags)
    then obtain e where "e \<in> set ?out" "tag e = t" by blast
    with fam have "t \<in> set (unknowns ?out)"
      unfolding unknowns_set by blast
    moreover have "distinct (unknowns ?out)" using unknowns_sorted by blast
    ultimately show ?thesis by (rule count_list_distinct[rotated])
  qed
  show ?thesis
  proof (intro conjI impI)
    show "\<forall>e\<in>set ?out. tag e = t \<longrightarrow> family e = UNKNOWN" by (rule fam)
    show "count_list (unknowns ?out) t = 1" if "t \<in> tag ` set es" using that by (rule cnt)
    show "sorted (unknowns cl)" "distinct (unknowns cl)" using unknowns_sorted by blast+
    show "set (unknowns cl) = {tag e |e. e \<in> set cl \<and> family e = UNKNOWN}"
      by (rule unknowns_set)
  qed
qed


theorem unknowns_once_witness:
  "count_list (unknowns (enrich_with_family [e_zzz, e_seed, e_zzz] (get_registry fs_tags None)))
     (ustr ''ZZZTOP'') = 1 \<and>
   unknowns (enrich_with_family [e_zzz, e_seed, e_zzz] (get_registry fs_tags None)) =
     [ustr ''ZZZTOP'']"
proof -
  have a: "\<forall>p. (None :: ustring option) = Some p \<longrightarrow>
             load_registry_from_md fs_tags p (ustr ''ZZZTOP'') = None"
    by simp
  have m: "ustr ''ZZZTOP'' \<in> tag ` set [e_zzz, e_seed, e_zzz]"
    by (simp add: e_zzz_def)
  have s: "STRUCTURAL \<noteq> []" "STRUCTURAL \<noteq> UNKNOWN"
    by (simp_all add: family_defs ustr_def)
  have reg: "get_registry fs_tags None = BUILTIN_REGISTRY"
    by (simp add: get_registry_def)
  have fams: "map family (enrich_with_family [e_zzz, e_seed, e_zzz] BUILTIN_REGISTRY) =
      [UNKNOWN, STRUCTURAL, UNKNOWN]"
    using s by (simp add: enrich_with_family_def e_zzz_def e_seed_def builtin_SEED
        builtin_ZZZTOP or_else_def)
  have tags: "map tag (enrich_with_family [e_zzz, e_seed, e_zzz] BUILTIN_REGISTRY) =
      [ustr ''ZZZTOP'', ustr ''SEED'', ustr ''ZZZTOP'']"
    by (simp add: enrich_with_family_def e_zzz_def e_seed_def)
  have "unknowns (enrich_with_family [e_zzz, e_seed, e_zzz] BUILTIN_REGISTRY) =
     [ustr ''ZZZTOP'']"
    using s by (simp add: unknowns_def enrich_with_family_def e_zzz_def e_seed_def
        builtin_SEED builtin_ZZZTOP or_else_def)
  then show ?thesis
    using unknowns_once[where t = "ustr ''ZZZTOP''" and tags_reg = None and fs = fs_tags
        and es = "[e_zzz, e_seed, e_zzz]" and cl = "[]", OF builtin_ZZZTOP a] m
    unfolding reg by simp
qed

section \<open>The narrative projection of no records\<close>

text \<open>
  C5. \<^verbatim>\<open>format_markdown\<close> on the empty list returns the fixed message
  \<^verbatim>\<open>[info] no matching tags found.\<close>: it raises nothing, and the message is not the
  empty string. The list it was given is still empty.
\<close>

theorem format_markdown_empty:
  "format_markdown [] = (Inr (ustr ''[info] no matching tags found.''), []) \<and>
   ustr ''[info] no matching tags found.'' \<noteq> []"
  by (simp add: format_markdown_def no_matches_def ustr_def)

section \<open>The narrative projection sorts the list it is given\<close>

lemma mset_sort_desc: "mset (sort_desc k xs) = mset xs"
  by (simp add: sort_desc_def)


lemma sorted_sort_desc: "sorted (rev (map k (sort_desc k xs)))"
  by (simp add: sort_desc_def rev_map)

lemma sort_desc_stable: "filter (\<lambda>y. k y = a) (sort_desc k xs) = filter (\<lambda>y. k y = a) xs"
proof -
  have "filter (\<lambda>y. k y = a) (sort_desc k xs) = rev (filter (\<lambda>y. k y = a) (sort_key k (rev xs)))"
    by (simp add: sort_desc_def rev_filter)
  also have "\<dots> = rev (filter (\<lambda>y. k y = a) (rev xs))"
    by (simp only: sort_key_stable)
  also have "\<dots> = filter (\<lambda>y. k y = a) xs"
    by (simp add: rev_filter)
  finally show ?thesis .
qed

lemma sort_desc_id: "sorted (rev (map k xs)) \<Longrightarrow> sort_desc k xs = xs"
  by (simp add: sort_desc_def rev_map sort_key_id_if_sorted)

lemma format_markdown_snd:
  "snd (format_markdown es) = sort_desc md_key es"
  by (simp add: format_markdown_def Let_def sort_desc_def)

text \<open>
  C1, as the code has it. \<^verbatim>\<open>format_markdown\<close> is not a read-only view: \<^verbatim>\<open>entries.sort\<close>
  reorders the caller's list. What it leaves is a rearrangement of the records it was
  given, in descending order of \<open>(date, ver)\<close>, the records of one key in the order they
  had; the list is left as it was exactly when it already was in descending order (an
  empty list is). A raw projection taken from the list after the narrative one shows the
  sorted order.
\<close>

theorem format_markdown_sorts_in_place:
  "mset (snd (format_markdown es)) = mset es \<and>
   sorted (rev (map md_key (snd (format_markdown es)))) \<and>
   (\<forall>k. filter (\<lambda>e. md_key e = k) (snd (format_markdown es)) = filter (\<lambda>e. md_key e = k) es) \<and>
   (snd (format_markdown es) = es \<longleftrightarrow> sorted (rev (map md_key es)))"
proof -
  have "snd (format_markdown es) = es \<longleftrightarrow> sorted (rev (map md_key es))"
    using sorted_sort_desc[of md_key es] sort_desc_id[of md_key es]
    by (auto simp: format_markdown_snd)
  then show ?thesis
    by (simp add: format_markdown_snd mset_sort_desc sorted_sort_desc sort_desc_stable)
qed

lemmas md_run_defs = format_markdown_def sort_desc_def md_key_def group_entries_def
  render_item_def no_matches_def md_groups_def e_jan_def e_jun_def

lemma sort_jan_jun: "sort_desc md_key [e_jan, e_jun] = [e_jun, e_jan]"
  by (simp add: md_run_defs ustr_def)

lemma sort_jun_jan: "sort_desc md_key [e_jun, e_jan] = [e_jun, e_jan]"
  by (simp add: md_run_defs ustr_def)

text \<open>
  C1 as stated fails: given the January record before the June record,
  \<^verbatim>\<open>format_markdown\<close> leaves the list with the June record first.
\<close>

theorem format_markdown_reorders:
  "snd (format_markdown [e_jan, e_jun]) = [e_jun, e_jan] \<and>
   snd (format_markdown [e_jan, e_jun]) \<noteq> [e_jan, e_jun]"
  by (simp add: format_markdown_snd sort_jan_jun) (simp add: e_jan_def e_jun_def ustr_def)

theorem format_markdown_sorts_in_place_witness:
  "sorted (rev (map md_key [e_jun, e_jan])) \<and> snd (format_markdown [e_jun, e_jan]) = [e_jun, e_jan]"
proof -
  have "sorted (rev (map md_key [e_jun, e_jan]))"
    by (simp add: md_key_def e_jan_def e_jun_def ustr_def)
  then show ?thesis
    using format_markdown_sorts_in_place[of "[e_jun, e_jan]"] by simp
qed

section \<open>The narrative projection renders its groups in descending order\<close>














section \<open>Scanning a document\<close>

lemma HDR_RE_title: "(t, r) \<in> set (HDR_RE s) \<Longrightarrow> t \<noteq> []"
  by (auto simp: HDR_RE_def set_list_bind plus_lazy_set)

lemma SECTION_RE_title: "(t, r) \<in> set (SECTION_RE s) \<Longrightarrow> t \<noteq> []"
  by (auto simp: SECTION_RE_def set_list_bind plus_greedy_set)

lemma search_HDR_title: "search HDR_RE l = Some t \<Longrightarrow> t \<noteq> []"
proof -
  assume "search HDR_RE l = Some t"
  from search_SomeD[OF this] obtain s' r where "(t, r) \<in> set (HDR_RE s')" by blast
  then show ?thesis by (rule HDR_RE_title)
qed

lemma search_SECTION_title: "search SECTION_RE text = Some t \<Longrightarrow> t \<noteq> []"
proof -
  assume "search SECTION_RE text = Some t"
  from search_SomeD[OF this] obtain s' r where "(t, r) \<in> set (SECTION_RE s')" by blast
  then show ?thesis by (rule SECTION_RE_title)
qed

lemma unknown_section_nonempty: "unknown_section \<noteq> []"
  by (simp add: unknown_section_def ustr_def)

lemma or_else_nonempty: "b \<noteq> [] \<Longrightarrow> or_else a b \<noteq> []"
  by (auto simp: or_else_def split: option.splits)

lemma match_tag_frame:
  "in_ledger (match_tag nd path sec st line) = in_ledger st \<and>
   ledger_title (match_tag nd path sec st line) = ledger_title st"
  by (simp add: match_tag_def split: option.splits)

lemma scan_line_inv: "scan_inv st \<Longrightarrow> scan_inv (scan_line nd path sec st line)"
  using search_HDR_title or_else_nonempty[OF unknown_section_nonempty]
  by (auto simp: scan_inv_def scan_line_def match_tag_frame split: option.splits)

lemma scan_lines_inv: "scan_inv st \<Longrightarrow> scan_inv (scan_lines nd path sec st ls)"
  unfolding scan_lines_def
  by (induction ls arbitrary: st) (auto intro: scan_line_inv)

lemma scan_init_inv: "scan_inv scan_init"
  by (simp add: scan_inv_def scan_init_def)

lemma scan_lines_snoc:
  "scan_lines nd path sec st (ls @ [l]) = scan_line nd path sec (scan_lines nd path sec st ls) l"
  by (simp add: scan_lines_def)

lemma scan_lines_append:
  "scan_lines nd path sec st (ls @ ms) = scan_lines nd path sec (scan_lines nd path sec st ls) ms"
  by (simp add: scan_lines_def)

lemma context_or_else:
  assumes "scan_inv st" and "sec \<noteq> Some []"
  shows "or_else (ledger_title st) (or_else sec unknown_section) = title_context sec st"
  using assms
  by (auto simp: scan_inv_def title_context_def or_else_def split: option.splits if_splits)

text \<open>
  C2, as the code has it. Scanning one more line \<open>line\<close> after the lines \<open>pre\<close> of a
  document: when the tracker takes a transition on the line (a header or a footer-open
  pattern met outside a ledger, a close pattern met inside one), the loop leaves the line
  and records nothing, whatever tag the line carries. On every other line, inside and
  outside a ledger alike, the tag pattern is tried, and a match is recorded with the title
  context that applies: the ledger title inside a ledger, else the section title, else the
  sentinel \<^verbatim>\<open>(unknown section)\<close>. The tracker is inside a ledger exactly when it holds a
  ledger title.
\<close>

theorem scan_records_title_context:
  "(in_ledger (scan_lines nd path (search SECTION_RE text) scan_init pre) \<longleftrightarrow>
      ledger_title (scan_lines nd path (search SECTION_RE text) scan_init pre) \<noteq> None) \<and>
   entries (scan_lines nd path (search SECTION_RE text) scan_init (pre @ [line])) =
     entries (scan_lines nd path (search SECTION_RE text) scan_init pre) @
     (if transition_line (scan_lines nd path (search SECTION_RE text) scan_init pre) line then []
      else case search (TAG_RE nd) line of
             None \<Rightarrow> []
           | Some mt \<Rightarrow>
               [\<lparr>file = path,
                 section = title_context (search SECTION_RE text)
                   (scan_lines nd path (search SECTION_RE text) scan_init pre),
                 layer = upper (or_else (g_layer mt) []),
                 tag = upper (g_tag mt),
                 date = g_date mt,
                 ver = g_ver mt,
                 note = strip (g_narr mt)\<rparr>])"
proof -
  let ?sec = "search SECTION_RE text"
  let ?st = "scan_lines nd path ?sec scan_init pre"
  have inv: "scan_inv ?st" by (rule scan_lines_inv[OF scan_init_inv])
  have sec: "?sec \<noteq> Some []" using search_SECTION_title by blast
  note ctx = context_or_else[OF inv sec]
  have 1: "in_ledger ?st \<longleftrightarrow> ledger_title ?st \<noteq> None"
    using inv by (auto simp: scan_inv_def split: if_splits)
  have 2: "entries (scan_line nd path ?sec ?st line) = entries ?st @
     (if transition_line ?st line then []
      else case search (TAG_RE nd) line of
             None \<Rightarrow> []
           | Some mt \<Rightarrow>
               [\<lparr>file = path, section = title_context ?sec ?st,
                 layer = upper (or_else (g_layer mt) []), tag = upper (g_tag mt),
                 date = g_date mt, ver = g_ver mt, note = strip (g_narr mt)\<rparr>])"
    by (auto simp: scan_line_def transition_line_def match_tag_def tag_entry_def ctx
        split: option.splits)
  from 1 2 show ?thesis by (simp only: scan_lines_snoc) 
qed

lemmas scan_defs = scrape_text_def scan_lines_def scan_line_def match_tag_def tag_entry_def
  scan_init_def splitlines_def unknown_section_def or_else_def

lemmas line_defs = tag_line_def hdr_line_def end_line_def hdr_tag_line_def hdr_end_line_def

lemma rep_exact_numeral:
  "rep_exact (numeral k) cls [] = []"
  "rep_exact (numeral k) cls (c # s) =
     (if cls c then map (\<lambda>(m, r). (c # m, r)) (rep_exact (pred_numeral k) cls s) else [])"
  by (simp_all add: numeral_eq_Suc)

lemma tag_line_match:
  "search (TAG_RE nd_latin) tag_line =
     Some \<lparr>g_layer = Some (ustr ''ONTO''), g_tag = ustr ''SEED'', g_date = ustr ''2024-03-01'',
       g_ver = ustr ''1.2.0'', g_narr = ustr ''Initial seed.''\<rparr>"
  by (simp add: line_defs char_defs rx_defs rep_exact_numeral)



text \<open>C2 as stated fails: a tag on a ledger header line is never matched.\<close>

theorem tag_on_header_line_skipped:
  "search (TAG_RE nd_latin) hdr_tag_line \<noteq> None \<and>
   scrape_text nd_latin (ustr ''a.tex'') hdr_tag_line = []"
proof -
  have "search (TAG_RE nd_latin) hdr_tag_line \<noteq> None"
    by (simp add: line_defs char_defs rx_defs rep_exact_numeral)
  moreover have "scrape_text nd_latin (ustr ''a.tex'') hdr_tag_line = []"
    by (simp add: scan_defs line_defs char_defs rx_defs rep_exact_numeral)
  ultimately show ?thesis by blast
qed

lemma after_hdr_line:
  "scan_lines nd (ustr ''a.tex'') None scan_init [hdr_line] =
     \<lparr>in_ledger = True, ledger_title = Some (ustr ''Origins''), entries = []\<rparr>"
  by (simp add: scan_defs line_defs char_defs rx_defs)

lemma tag_line_no_pattern:
  "search HDR_RE tag_line = None" "search FTR_RE tag_line = None" "search END_RE tag_line = None"
  by (simp_all add: line_defs char_defs rx_defs)

theorem scan_records_title_context_witness:
  "entries (scan_lines nd_latin (ustr ''a.tex'') (search SECTION_RE []) scan_init
      ([hdr_line] @ [tag_line])) =
     [\<lparr>file = ustr ''a.tex'', section = ustr ''Origins'', layer = ustr ''ONTO'',
       tag = ustr ''SEED'', date = ustr ''2024-03-01'', ver = ustr ''1.2.0'',
       note = ustr ''Initial seed.''\<rparr>]"
proof -
  have sec: "search SECTION_RE [] = None"
    by (simp add: rx_defs char_defs)
  have up: "upper (ustr ''ONTO'') = ustr ''ONTO''" "upper (ustr ''SEED'') = ustr ''SEED''"
    "strip (ustr ''Initial seed.'') = ustr ''Initial seed.''"
    by (simp_all add: char_defs)
  have o: "or_else (Some (ustr ''ONTO'')) [] = ustr ''ONTO''"
    by (simp add: or_else_def ustr_def)
  show ?thesis
    using scan_records_title_context[of nd_latin "ustr ''a.tex''" "[]" "[hdr_line]" tag_line]
    unfolding sec after_hdr_line
    by (simp add: transition_line_def tag_line_no_pattern tag_line_match title_context_def up o)
qed

lemma or_else_section:
  "sec \<noteq> Some [] \<Longrightarrow>
   or_else sec unknown_section = (case sec of Some t \<Rightarrow> t | None \<Rightarrow> unknown_section)"
  by (auto simp: or_else_def split: option.splits)

lemma outside_line:
  assumes "\<not> in_ledger st" "ledger_title st = None"
    and "search HDR_RE l = None" "search FTR_RE l = None"
  shows "\<not> in_ledger (scan_line nd path sec st l) \<and>
         ledger_title (scan_line nd path sec st l) = None \<and>
         (\<exists>new. entries (scan_line nd path sec st l) = entries st @ new \<and>
            (\<forall>e\<in>set new. section e = or_else sec unknown_section))"
  using assms
  by (auto simp: scan_line_def match_tag_def tag_entry_def or_else_def split: option.splits)

lemma outside_lines:
  assumes "\<forall>l\<in>set ls. search HDR_RE l = None \<and> search FTR_RE l = None"
    and "\<not> in_ledger st" "ledger_title st = None"
  shows "\<not> in_ledger (scan_lines nd path sec st ls) \<and>
         ledger_title (scan_lines nd path sec st ls) = None \<and>
         (\<exists>new. entries (scan_lines nd path sec st ls) = entries st @ new \<and>
            (\<forall>e\<in>set new. section e = or_else sec unknown_section))"
  using assms
proof (induction ls arbitrary: st)
  case Nil
  then show ?case by (simp add: scan_lines_def)
next
  case (Cons l ls)
  let ?st1 = "scan_line nd path sec st l"
  from Cons.prems have l: "search HDR_RE l = None" "search FTR_RE l = None" by simp_all
  from outside_line[OF Cons.prems(2,3) l, of nd path sec] obtain new1
    where o1: "\<not> in_ledger ?st1" "ledger_title ?st1 = None"
      and e1: "entries ?st1 = entries st @ new1"
      and s1: "\<forall>e\<in>set new1. section e = or_else sec unknown_section"
    by blast
  from Cons.prems(1) have "\<forall>l\<in>set ls. search HDR_RE l = None \<and> search FTR_RE l = None"
    by simp
  from Cons.IH[OF this o1] obtain new2
    where o2: "\<not> in_ledger (scan_lines nd path sec ?st1 ls)"
        "ledger_title (scan_lines nd path sec ?st1 ls) = None"
      and e2: "entries (scan_lines nd path sec ?st1 ls) = entries ?st1 @ new2"
      and s2: "\<forall>e\<in>set new2. section e = or_else sec unknown_section"
    by blast
  have step: "scan_lines nd path sec st (l # ls) = scan_lines nd path sec ?st1 ls"
    by (simp add: scan_lines_def)
  have "entries (scan_lines nd path sec st (l # ls)) = entries st @ (new1 @ new2)"
    using e1 e2 step by simp
  moreover have "\<forall>e\<in>set (new1 @ new2). section e = or_else sec unknown_section"
    using s1 s2 by auto
  ultimately show ?case using o2 step by metis
qed

lemma close_line:
  assumes "scan_inv st" and "search END_RE line \<noteq> None"
    and "in_ledger st \<or> (search HDR_RE line = None \<and> search FTR_RE line = None)"
  shows "\<not> in_ledger (scan_line nd path sec st line) \<and>
         ledger_title (scan_line nd path sec st line) = None"
  using assms
  by (auto simp: scan_line_def scan_inv_def match_tag_frame split: option.splits if_splits)

text \<open>
  C7, as the code has it. Let \<open>line\<close> carry a close pattern, and let the tracker meet it
  inside a ledger, or let the line carry no open pattern. Then after the line the tracker
  is outside a ledger with the ledger title cleared; it stays so over all later lines
  \<open>post\<close> as long as none of them carries an open pattern (header or footer-open), and
  every record those lines produce is attributed to the section title or the sentinel,
  never to a ledger title.
\<close>

theorem close_leaves_ledger:
  assumes "search END_RE line \<noteq> None"
    and "in_ledger (scan_lines nd path (search SECTION_RE text) scan_init pre) \<or>
         (search HDR_RE line = None \<and> search FTR_RE line = None)"
    and "\<forall>l\<in>set post. search HDR_RE l = None \<and> search FTR_RE l = None"
  shows "\<not> in_ledger (scan_lines nd path (search SECTION_RE text) scan_init (pre @ [line])) \<and>
         ledger_title (scan_lines nd path (search SECTION_RE text) scan_init (pre @ [line])) = None \<and>
         \<not> in_ledger (scan_lines nd path (search SECTION_RE text) scan_init (pre @ [line] @ post)) \<and>
         ledger_title (scan_lines nd path (search SECTION_RE text) scan_init (pre @ [line] @ post)) = None \<and>
         (\<exists>new.
            entries (scan_lines nd path (search SECTION_RE text) scan_init (pre @ [line] @ post)) =
              entries (scan_lines nd path (search SECTION_RE text) scan_init (pre @ [line])) @ new \<and>
            (\<forall>e\<in>set new.
               section e = (case search SECTION_RE text of Some t \<Rightarrow> t | None \<Rightarrow> unknown_section)))"
proof -
  let ?sec = "search SECTION_RE text"
  let ?st = "scan_lines nd path ?sec scan_init pre"
  let ?st1 = "scan_lines nd path ?sec scan_init (pre @ [line])"
  let ?st2 = "scan_lines nd path ?sec scan_init (pre @ [line] @ post)"
  have inv: "scan_inv ?st" by (rule scan_lines_inv[OF scan_init_inv])
  have sec: "?sec \<noteq> Some []"
  proof
    assume "?sec = Some []"
    from search_SECTION_title[OF this] show False by simp
  qed
  have st1: "?st1 = scan_line nd path ?sec ?st line" by (rule scan_lines_snoc)
  have st2: "?st2 = scan_lines nd path ?sec ?st1 post"
    using scan_lines_append[of nd path ?sec scan_init "pre @ [line]" post] by simp
  from close_line[OF inv assms(1,2), of nd path ?sec]
  have c: "\<not> in_ledger ?st1" "ledger_title ?st1 = None"
    unfolding st1 by blast+
  from outside_lines[OF assms(3) c, of nd path ?sec]
  have o: "\<not> in_ledger ?st2" "ledger_title ?st2 = None"
    "\<exists>new. entries ?st2 = entries ?st1 @ new \<and>
       (\<forall>e\<in>set new. section e = or_else ?sec unknown_section)"
    unfolding st2 by blast+
  from o(3) have "\<exists>new. entries ?st2 = entries ?st1 @ new \<and>
       (\<forall>e\<in>set new. section e = (case ?sec of Some t \<Rightarrow> t | None \<Rightarrow> unknown_section))"
    unfolding or_else_section[OF sec] .
  with c o(1,2) show ?thesis by blast
qed

text \<open>
  C7 as stated fails: the first line carries a header and, after it, a close pattern;
  no later line opens a ledger, and the tag of the second line is still attributed to the
  ledger title.
\<close>

theorem close_on_header_line_ignored:
  "search END_RE hdr_end_line \<noteq> None \<and>
   search HDR_RE tag_line = None \<and> search FTR_RE tag_line = None \<and>
   search SECTION_RE (hdr_end_line @ [10] @ tag_line) = None \<and>
   splitlines (hdr_end_line @ [10] @ tag_line) = [hdr_end_line, tag_line] \<and>
   in_ledger (scan_lines nd_latin (ustr ''a.tex'') None scan_init [hdr_end_line]) \<and>
   map section (scrape_text nd_latin (ustr ''a.tex'') (hdr_end_line @ [10] @ tag_line)) =
     [ustr ''Origins'']"
proof -
  have 1: "search END_RE hdr_end_line \<noteq> None"
    by (simp add: line_defs char_defs rx_defs)
  have 2: "search SECTION_RE (hdr_end_line @ [10] @ tag_line) = None"
    by (simp add: line_defs char_defs rx_defs)
  have 3: "splitlines (hdr_end_line @ [10] @ tag_line) = [hdr_end_line, tag_line]"
    by (simp add: line_defs char_defs splitlines_def)
  have 4: "scan_lines nd_latin (ustr ''a.tex'') None scan_init [hdr_end_line] =
     \<lparr>in_ledger = True, ledger_title = Some (ustr ''Origins''), entries = []\<rparr>"
    by (simp add: scan_defs line_defs char_defs rx_defs)
  have 5: "scan_lines nd_latin (ustr ''a.tex'') None scan_init [hdr_end_line, tag_line] =
     scan_line nd_latin (ustr ''a.tex'') None
       (scan_lines nd_latin (ustr ''a.tex'') None scan_init [hdr_end_line]) tag_line"
    by (simp add: scan_lines_def)
  have 6: "map section (scrape_text nd_latin (ustr ''a.tex'') (hdr_end_line @ [10] @ tag_line)) =
     [ustr ''Origins'']"
    unfolding scrape_text_def Let_def 2 3 5 4
    by (simp add: scan_line_def match_tag_def tag_entry_def tag_line_no_pattern tag_line_match
        or_else_def ustr_def)
  from 1 2 3 4 6 tag_line_no_pattern show ?thesis by simp
qed

theorem close_leaves_ledger_witness:
  "\<not> in_ledger (scan_lines nd_latin (ustr ''a.tex'') (search SECTION_RE []) scan_init
      ([hdr_line, tag_line] @ [end_line] @ [tag_line])) \<and>
   map section (entries (scan_lines nd_latin (ustr ''a.tex'') (search SECTION_RE []) scan_init
      ([hdr_line, tag_line] @ [end_line] @ [tag_line]))) =
     [ustr ''Origins'', ustr ''(unknown section)'']"
proof -
  have sec: "search SECTION_RE [] = None"
    by (simp add: rx_defs char_defs)
  have h1: "search END_RE end_line \<noteq> None"
    by (simp add: line_defs char_defs rx_defs)
  have a: "scan_lines nd_latin (ustr ''a.tex'') None scan_init [hdr_line, tag_line] =
      scan_line nd_latin (ustr ''a.tex'') None
        (scan_lines nd_latin (ustr ''a.tex'') None scan_init [hdr_line]) tag_line"
    by (simp add: scan_lines_def)
  have h2: "in_ledger (scan_lines nd_latin (ustr ''a.tex'') (search SECTION_RE []) scan_init
      [hdr_line, tag_line]) \<or> (search HDR_RE end_line = None \<and> search FTR_RE end_line = None)"
    unfolding sec a after_hdr_line
    by (simp add: scan_line_def tag_line_no_pattern match_tag_frame)
  have h3: "\<forall>l\<in>set [tag_line]. search HDR_RE l = None \<and> search FTR_RE l = None"
    by (simp add: tag_line_no_pattern)
  have run: "map section (entries (scan_lines nd_latin (ustr ''a.tex'') None scan_init
      ([hdr_line, tag_line] @ [end_line] @ [tag_line]))) =
     [ustr ''Origins'', ustr ''(unknown section)'']"
  proof -
    have b: "scan_lines nd_latin (ustr ''a.tex'') None scan_init
        ([hdr_line, tag_line] @ [end_line] @ [tag_line]) =
       scan_line nd_latin (ustr ''a.tex'') None
        (scan_line nd_latin (ustr ''a.tex'') None
          (scan_line nd_latin (ustr ''a.tex'') None
            (scan_lines nd_latin (ustr ''a.tex'') None scan_init [hdr_line]) tag_line)
          end_line) tag_line"
      by (simp add: scan_lines_def)
    show ?thesis
      unfolding b after_hdr_line using h1
      by (auto simp: scan_line_def match_tag_def tag_entry_def tag_line_no_pattern
          tag_line_match or_else_def unknown_section_def ustr_def)
  qed
  from close_leaves_ledger[OF h1 h2 h3] run show ?thesis
    unfolding sec by simp
qed

section \<open>What the registry parser can record\<close>

lemma reg_tag_group_shape: "(t, r) \<in> set (reg_tag_group s) \<Longrightarrow> reg_tag_shape t"
proof -
  assume "(t, r) \<in> set (reg_tag_group s)"
  then obtain a b where t: "t = a @ b" and a: "length a = 1" "\<forall>c\<in>set a. ascii_upper c"
    and b: "b \<noteq> []" "\<forall>c\<in>set b. reg_char c"
    by (auto simp: reg_tag_group_def set_list_bind rep_exact_set plus_greedy_set)
  from a obtain c where "a = [c]" "ascii_upper c" by (cases a) auto
  with t b show ?thesis by (simp add: reg_tag_shape_def list_all_iff)
qed

lemma TBL_RE_shape: "(t, r) \<in> set (TBL_RE s) \<Longrightarrow> reg_tag_shape t"
  by (auto simp: TBL_RE_def set_list_bind dest: reg_tag_group_shape)

lemma DESC_RE_shape: "(t, r) \<in> set (DESC_RE s) \<Longrightarrow> reg_tag_shape t"
  by (auto simp: DESC_RE_def set_list_bind dest: reg_tag_group_shape)

lemma rmatch_TBL_shape: "rmatch TBL_RE h = Some t \<Longrightarrow> reg_tag_shape t"
proof -
  assume "rmatch TBL_RE h = Some t"
  then have "first (TBL_RE h) = Some t" by (simp add: rmatch_def)
  from first_SomeD[OF this] obtain r where "(t, r) \<in> set (TBL_RE h)" ..
  then show ?thesis by (rule TBL_RE_shape)
qed

lemma search_DESC_shape: "search DESC_RE h = Some t \<Longrightarrow> reg_tag_shape t"
proof -
  assume "search DESC_RE h = Some t"
  from search_SomeD[OF this] obtain s' r where "(t, r) \<in> set (DESC_RE s')" by blast
  then show ?thesis by (rule DESC_RE_shape)
qed

lemma reg_char_upper: "ascii_upper c \<or> reg_char c \<Longrightarrow> upper_char c = c"
  by (auto simp: upper_char_def ascii_lower_def ascii_upper_def reg_char_def ascii_digit_def)

lemma reg_tag_shape_upper: "reg_tag_shape t \<Longrightarrow> upper t = t"
  by (cases t) (auto simp: reg_tag_shape_def upper_def list_all_iff reg_char_upper
      intro: map_idI)

lemma md_desc_shaped: "md_shaped st \<Longrightarrow> md_shaped (md_desc st h)"
  by (auto simp: md_shaped_def md_desc_def reg_tag_shape_upper split: option.splits
      dest: search_DESC_shape)

lemma md_line_shaped: "md_shaped st \<Longrightarrow> md_shaped (md_line st line)"
proof -
  assume ok: "md_shaped st"
  have "md_shaped (st\<lparr>current_family := f\<rparr>)" for f
    using ok by (simp add: md_shaped_def)
  moreover have "md_shaped (st\<lparr>tag_to_family := (tag_to_family st)(upper t \<mapsto> fam)\<rparr>)"
    if "rmatch TBL_RE h = Some t" for t fam h
    using ok rmatch_TBL_shape[OF that] by (auto simp: md_shaped_def reg_tag_shape_upper)
  ultimately show ?thesis
    using ok md_desc_shaped[OF ok]
    by (auto simp: md_line_def Let_def split: option.splits)
qed

lemma md_lines_shaped: "md_shaped st \<Longrightarrow> md_shaped (foldl md_line st ls)"
  by (induction ls arbitrary: st) (auto intro: md_line_shaped)

lemma load_shape: "load_registry_from_md fs path t = Some f \<Longrightarrow> reg_tag_shape t"
proof -
  assume a: "load_registry_from_md fs path t = Some f"
  have "md_shaped md_init" by (simp add: md_shaped_def md_init_def)
  then have "md_shaped (foldl md_line md_init ls)" for ls by (rule md_lines_shaped)
  with a show ?thesis
    by (auto simp: load_registry_from_md_def md_shaped_def split: option.splits)
qed

lemma shape_excludes:
  assumes "reg_tag_shape t"
  shows "45 \<notin> set t \<and> 126 \<notin> set t \<and> sine_wave \<notin> set t \<and> length t \<noteq> 1"
proof -
  from assms obtain c cs where t: "t = c # cs" "ascii_upper c" "cs \<noteq> []" "\<forall>x\<in>set cs. reg_char x"
    by (cases t) (auto simp: reg_tag_shape_def list_all_iff)
  have "x \<noteq> 45 \<and> x \<noteq> 126 \<and> x \<noteq> sine_wave" if "ascii_upper x \<or> reg_char x" for x
    using that by (auto simp: ascii_upper_def reg_char_def ascii_digit_def sine_wave_def)
  with t show ?thesis by auto
qed

text \<open>
  C10. Every tag \<^verbatim>\<open>load_registry_from_md\<close> records has the shape \<^verbatim>\<open>[A-Z][A-Z0-9_]+\<close>: an
  upper-case letter followed by one or more upper-case letters, digits or underscores.
  So a tag name that holds a hyphen, a tilde or U+223F, or is a single character, is never
  in the external mapping, whatever the registry document says, and \<^verbatim>\<open>get_registry\<close> maps
  it as the built-in registry does: it is classified by the built-in registry or as
  \<^verbatim>\<open>"Unknown"\<close>.
\<close>

theorem external_registry_tag_shape:
  "(load_registry_from_md fs path t \<noteq> None \<longrightarrow> reg_tag_shape t) \<and>
   (45 \<in> set t \<or> 126 \<in> set t \<or> sine_wave \<in> set t \<or> length t = 1 \<longrightarrow>
      load_registry_from_md fs path t = None \<and>
      get_registry fs tags_reg t = BUILTIN_REGISTRY t)"
proof (intro conjI impI)
  show "reg_tag_shape t" if "load_registry_from_md fs path t \<noteq> None"
    using that load_shape by blast
next
  assume odd: "45 \<in> set t \<or> 126 \<in> set t \<or> sine_wave \<in> set t \<or> length t = 1"
  have none: "load_registry_from_md fs p t = None" for p
  proof (rule ccontr)
    assume "load_registry_from_md fs p t \<noteq> None"
    then obtain f where "load_registry_from_md fs p t = Some f" by blast
    from shape_excludes[OF load_shape[OF this]] odd show False by blast
  qed
  show "load_registry_from_md fs path t = None" by (rule none)
  show "get_registry fs tags_reg t = BUILTIN_REGISTRY t"
    by (simp add: get_registry_def Let_def map_add_def none split: option.splits)
qed

lemma load_odd_SEED:
  "load_registry_from_md fs_odd (ustr ''TAGS.md'') (ustr ''SEED'') = Some META"
  by (simp add: fs_odd_def md_defs char_defs rx_defs family_defs)

theorem external_registry_tag_shape_witness:
  "reg_tag_shape (ustr ''SEED'') \<and>
   load_registry_from_md fs_odd (ustr ''TAGS.md'') (ustr ''NEW-TAG'') = None \<and>
   load_registry_from_md fs_odd (ustr ''TAGS.md'') (ustr ''X'') = None \<and>
   get_registry fs_odd (Some (ustr ''TAGS.md'')) (ustr ''NEW-TAG'') =
     BUILTIN_REGISTRY (ustr ''NEW-TAG'')"
proof -
  have 1: "load_registry_from_md fs_odd (ustr ''TAGS.md'') (ustr ''SEED'') \<noteq> None"
    by (simp add: load_odd_SEED)
  have 2: "45 \<in> set (ustr ''NEW-TAG'')" by (simp add: ustr_def)
  have 3: "length (ustr ''X'') = 1" by (simp add: ustr_def)
  from external_registry_tag_shape[of fs_odd "ustr ''TAGS.md''" "ustr ''SEED''"]
    external_registry_tag_shape[of fs_odd "ustr ''TAGS.md''" "ustr ''NEW-TAG''"
      "Some (ustr ''TAGS.md'')"]
    external_registry_tag_shape[of fs_odd "ustr ''TAGS.md''" "ustr ''X''"]
    1 2 3
  show ?thesis by blast
qed

section \<open>Matching a formatted annotation line again\<close>





































end
